theory Spec2Isabelle
  imports Main
begin

section \<open>JavaScript strings\<close>

text \<open>
  A JavaScript string is modelled as a \<^typ>\<open>string\<close>: a list of code units, here the code
  units below 256. \<open>String.prototype.trim\<close> and the regular expression class \<open>\s\<close> use the
  same set of white space (WhiteSpace and LineTerminator); below 256 these are TAB, LF, VT,
  FF, CR, SPACE and NBSP.
\<close>

definition is_space :: "char \<Rightarrow> bool" where
  "is_space c = (c = CHR 0x09 \<or> c = CHR 0x0A \<or> c = CHR 0x0B \<or> c = CHR 0x0C \<or> c = CHR 0x0D
     \<or> c = CHR 0x20 \<or> c = CHR 0xA0)"

text \<open>\<open>s.trim()\<close>\<close>

definition trim :: "string \<Rightarrow> string" where
  "trim s = rev (dropWhile is_space (rev (dropWhile is_space s)))"

text \<open>\<open>s.startsWith(p)\<close>\<close>

definition startsWith :: "string \<Rightarrow> string \<Rightarrow> bool" where
  "startsWith s p = (take (length p) s = p)"

text \<open>\<open>s.substring(n)\<close> for \<open>0 \<le> n\<close>\<close>

definition substring :: "string \<Rightarrow> nat \<Rightarrow> string" where
  "substring s n = drop n s"

text \<open>
  \<open>s.split(/\s+/)\<close>: the fields between the maximal runs of white space. A leading or a
  trailing run leaves an empty first or last field, and the empty string has the one field
  \<open>''\<close>.
\<close>

function split_ws :: "string \<Rightarrow> string list" where
  "split_ws [] = [[]]"
| "split_ws (c # cs) =
     (if is_space c then [] # split_ws (dropWhile is_space cs)
      else (case split_ws cs of [] \<Rightarrow> [[c]] | w # ws \<Rightarrow> (c # w) # ws))"
  by pat_completeness auto
termination
  by (relation "measure length") (auto simp: length_dropWhile_le less_Suc_eq_le)

text \<open>\<open>s.split(/\s+/).filter(w => w.length > 0)\<close>\<close>

definition split_words :: "string \<Rightarrow> string list" where
  "split_words s = filter (\<lambda>w. length w > 0) (split_ws s)"

text \<open>\<open>ws.join(' ')\<close>\<close>

fun join_sp :: "string list \<Rightarrow> string" where
  "join_sp [] = []"
| "join_sp [w] = w"
| "join_sp (w # v # ws) = w @ CHR '' '' # join_sp (v # ws)"

text \<open>\<open>xs.slice(a, b)\<close> and \<open>xs.slice(a)\<close> for \<open>0 \<le> a \<le> b\<close>; \<open>xs.slice(-3)\<close> is the last three.\<close>

definition slice :: "'a list \<Rightarrow> nat \<Rightarrow> nat \<Rightarrow> 'a list" where
  "slice xs a b = take (b - a) (drop a xs)"

definition slice_from :: "'a list \<Rightarrow> nat \<Rightarrow> 'a list" where
  "slice_from xs a = drop a xs"

definition slice_last3 :: "'a list \<Rightarrow> 'a list" where
  "slice_last3 xs = drop (length xs - 3) xs"

definition WORDS_PER_PHRASE :: nat where
  "WORDS_PER_PHRASE = 10"

section \<open>JavaScript values\<close>

text \<open>
  The value that \<open>response.json()\<close> yields, and what reading it can give: a JSON value or
  \<open>undefined\<close>. Numbers are the integers. An object is the list of its members in the
  order of the text; of two members with the same key the later one counts.
\<close>

datatype js =
    JUndefined
  | JNull
  | JBool bool
  | JNum int
  | JStr string
  | JArr "js list"
  | JObj "(string \<times> js) list"

datatype thrown = TypeError

text \<open>
  \<open>v[0]\<close>: reading a property of \<open>undefined\<close> or \<open>null\<close> throws; a boolean and a number
  have no property \<open>0\<close>; a string gives its first code unit, an array its first element, an
  object its member \<open>"0"\<close>, and \<open>undefined\<close> when there is none.
\<close>

fun index0 :: "js \<Rightarrow> thrown + js" where
  "index0 JUndefined = Inl TypeError"
| "index0 JNull = Inl TypeError"
| "index0 (JBool b) = Inr JUndefined"
| "index0 (JNum n) = Inr JUndefined"
| "index0 (JStr str) = Inr (case str of [] \<Rightarrow> JUndefined | c # cs \<Rightarrow> JStr [c])"
| "index0 (JArr xs) = Inr (case xs of [] \<Rightarrow> JUndefined | x # ys \<Rightarrow> x)"
| "index0 (JObj members) =
     Inr (case map_of (rev members) ''0'' of None \<Rightarrow> JUndefined | Some v \<Rightarrow> v)"

text \<open>\<open>xs.map(segment => segment[0])\<close>: the first throw ends it.\<close>

fun map_index0 :: "js list \<Rightarrow> thrown + js list" where
  "map_index0 [] = Inr []"
| "map_index0 (x # xs) =
     (case index0 x of
        Inl e \<Rightarrow> Inl e
      | Inr y \<Rightarrow> (case map_index0 xs of Inl e \<Rightarrow> Inl e | Inr ys \<Rightarrow> Inr (y # ys)))"

text \<open>\<open>ws.join(sep)\<close> for strings.\<close>

fun join_by :: "string \<Rightarrow> string list \<Rightarrow> string" where
  "join_by sep [] = []"
| "join_by sep [w] = w"
| "join_by sep (w # v # ws) = w @ sep @ join_by sep (v # ws)"

text \<open>The decimal text of a number.\<close>

fun digits :: "nat \<Rightarrow> string" where
  "digits n =
     (if n < 10 then [char_of (48 + n)]
      else digits (n div 10) @ [char_of (48 + n mod 10)])"

definition number_text :: "int \<Rightarrow> string" where
  "number_text n = (if n < 0 then CHR ''-'' # digits (nat (- n)) else digits (nat n))"

text \<open>
  The text of an element in \<open>Array.prototype.join\<close>: empty for \<open>undefined\<close> and \<open>null\<close>,
  otherwise the element's \<open>toString\<close>, which for an array is its \<open>join(',')\<close>.
\<close>

fun join_text :: "js \<Rightarrow> string" where
  "join_text JUndefined = []"
| "join_text JNull = []"
| "join_text (JBool b) = (if b then ''true'' else ''false'')"
| "join_text (JNum n) = number_text n"
| "join_text (JStr str) = str"
| "join_text (JArr xs) = join_by '','' (map join_text xs)"
| "join_text (JObj members) = ''[object Object]''"

section \<open>The remote segmenter: \<open>useElevenLabsScribe\<close>\<close>

text \<open>
  The hook's only state is \<open>processedWordCountRef\<close>. Each handler takes the counter and
  returns the new counter with the phrases it passed to \<open>onPhrase\<close>, in order.
\<close>

definition onPartialTranscript :: "string \<Rightarrow> nat \<Rightarrow> nat \<times> string list" where
  "onPartialTranscript text processedWordCount =
     (if text \<noteq> [] \<and> trim text \<noteq> [] then
        (let currentPartial = trim text;
             words = split_words currentPartial;
             unprocessedWordCount = int (length words) - int processedWordCount
         in if unprocessedWordCount \<ge> int WORDS_PER_PHRASE then
              (let phraseWords = slice words processedWordCount (processedWordCount + WORDS_PER_PHRASE);
                   phrase = join_sp phraseWords
               in (processedWordCount + WORDS_PER_PHRASE, [phrase]))
            else (processedWordCount, []))
      else (processedWordCount, []))"

definition onCommittedTranscript :: "string \<Rightarrow> nat \<Rightarrow> nat \<times> string list" where
  "onCommittedTranscript text processedWordCount =
     (if text \<noteq> [] \<and> trim text \<noteq> [] then
        (let words = split_words (trim text)
         in (0,
             if length words > processedWordCount then
               (let remainingWords = slice_from words processedWordCount;
                    remainingPhrase = join_sp remainingWords
                in if remainingPhrase \<noteq> [] then [remainingPhrase] else [])
             else []))
      else (processedWordCount, []))"

text \<open>The hook's \<open>disconnect\<close>: after \<open>scribe.disconnect()\<close> the counter is reset; no phrase is passed on.\<close>

definition disconnect :: "nat \<Rightarrow> nat \<times> string list" where
  "disconnect processedWordCount = (0, [])"

section \<open>The delivery pipeline shared by both views\<close>

text \<open>
  The translation and the playback stage (\<open>PROCESS 3\<close> and \<open>PROCESS 4\<close> of the default
  view, \<open>Process 1\<close> and \<open>Process 2\<close> of the iPhone view) are the same code in both
  components. Their state is the React state and the refs; the external calls that are
  outstanding are kept beside it: a translation \<open>fetch\<close> that has not settled (\<open>fetches\<close>), an utterance
  given to \<open>speechSynthesis.speak\<close> whose \<open>onend\<close>/\<open>onerror\<close> has not fired, a safety
  timeout that was set and has neither fired nor been cleared. \<open>fetched\<close> and \<open>spoken\<close> log
  the texts given to the two providers, in order.

  A handler runs to its end, and then the effects run whose dependency it has set, as
  React runs them after the render that the update causes. An effect reads the refs as
  they are at that time.
\<close>

record 'v pipeline =
  phraseArray :: "string list"
  translatedArray :: "'v list"
  currentTranslation :: 'v
  recentTranslations :: "'v list"
  isTranslating :: bool
  isSpeaking :: bool
  fetches :: "nat list"
  utterances :: "nat list"
  timers :: "nat list"
  fetched :: "string list"
  spoken :: "'v list"
  nextId :: nat

text \<open>
  What the translation provider does with one request: the \<open>fetch\<close> rejects, or it gives
  a response with its \<open>ok\<close> flag and the value of \<open>response.json()\<close>, which is \<open>None\<close> when
  the body is not JSON and \<open>json()\<close> rejects.
\<close>

datatype response = FetchRejected | Response bool "js option"

text \<open>
  The outcome of the \<open>try\<close> block of \<open>translateNextPhrase\<close>: it throws, which takes the
  \<open>catch\<close> branch whatever was thrown, or it reaches the translation it has read.
\<close>

datatype failure = ProviderError | NonSuccessResponse | MalformedPayload

datatype 'v attempt = Threw failure | Translated 'v

text \<open>
  The \<open>try\<close> block from the \<open>await\<close> of the \<open>fetch\<close> to the translation. The two views
  differ in the expression that reads the translation out of the payload, \<open>read\<close>; it is
  the only place where a payload can make the block throw.
\<close>

definition tryBlock :: "(js \<Rightarrow> thrown + 'v) \<Rightarrow> response \<Rightarrow> 'v attempt" where
  "tryBlock read r =
     (case r of
        FetchRejected \<Rightarrow> Threw ProviderError
      | Response ok body \<Rightarrow>
          (if \<not> ok then Threw NonSuccessResponse
           else (case body of
                   None \<Rightarrow> Threw MalformedPayload
                 | Some data \<Rightarrow>
                     (case read data of
                        Inl e \<Rightarrow> Threw MalformedPayload
                      | Inr translation \<Rightarrow> Translated translation))))"

definition translateNextPhrase :: "('v, 'a) pipeline_scheme \<Rightarrow> ('v, 'a) pipeline_scheme" where
  "translateNextPhrase s =
     s\<lparr>isTranslating := True,
       fetches := fetches s @ [nextId s],
       fetched := fetched s @ [hd (phraseArray s)],
       nextId := nextId s + 1\<rparr>"

text \<open>The effect on \<open>[phraseArray, selectedLanguage]\<close>.\<close>

definition translateEffect :: "('v, 'a) pipeline_scheme \<Rightarrow> ('v, 'a) pipeline_scheme" where
  "translateEffect s =
     (if length (phraseArray s) = 0 then s
      else if isTranslating s then s
      else translateNextPhrase s)"

definition speakNextPhrase :: "('v, 'a) pipeline_scheme \<Rightarrow> ('v, 'a) pipeline_scheme" where
  "speakNextPhrase s =
     s\<lparr>currentTranslation := hd (translatedArray s),
       isSpeaking := True,
       timers := timers s @ [nextId s],
       utterances := utterances s @ [nextId s],
       spoken := spoken s @ [hd (translatedArray s)],
       nextId := nextId s + 1\<rparr>"

text \<open>The effect on \<open>[translatedArray]\<close>.\<close>

definition speakEffect :: "('v, 'a) pipeline_scheme \<Rightarrow> ('v, 'a) pipeline_scheme" where
  "speakEffect s =
     (if length (translatedArray s) = 0 then s
      else if isSpeaking s then s
      else speakNextPhrase s)"

text \<open>
  The rest of \<open>translateNextPhrase\<close>, run when the outstanding fetch \<open>k\<close> settles: the
  \<open>try\<close> or the \<open>catch\<close> branch, then \<open>finally\<close>, then the effects of the arrays that were
  set.
\<close>

definition translationSettled :: "nat \<Rightarrow> 'v attempt \<Rightarrow> ('v, 'a) pipeline_scheme \<Rightarrow> ('v, 'a) pipeline_scheme" where
  "translationSettled k r s =
     (if k \<in> set (fetches s) then
        (case r of
           Translated translation \<Rightarrow>
             speakEffect (translateEffect
               (s\<lparr>phraseArray := slice_from (phraseArray s) 1,
                  translatedArray := translatedArray s @ [translation],
                  recentTranslations := slice_last3 (recentTranslations s @ [translation]),
                  isTranslating := False,
                  fetches := remove1 k (fetches s)\<rparr>))
         | Threw e \<Rightarrow>
             translateEffect
               (s\<lparr>phraseArray := slice_from (phraseArray s) 1,
                  isTranslating := False,
                  fetches := remove1 k (fetches s)\<rparr>))
      else s)"

text \<open>The outstanding fetch \<open>k\<close> settles with the response \<open>r\<close>.\<close>

definition fetchSettled ::
  "(js \<Rightarrow> thrown + 'v) \<Rightarrow> nat \<Rightarrow> response \<Rightarrow> ('v, 'a) pipeline_scheme \<Rightarrow> ('v, 'a) pipeline_scheme" where
  "fetchSettled read k r s = translationSettled k (tryBlock read r) s"

text \<open>The callback of \<open>setTimeout(..., 15000)\<close> for the utterance \<open>k\<close>.\<close>

definition safetyTimeout :: "nat \<Rightarrow> ('v, 'a) pipeline_scheme \<Rightarrow> ('v, 'a) pipeline_scheme" where
  "safetyTimeout k s =
     (if k \<in> set (timers s) then
        speakEffect
          (s\<lparr>isSpeaking := False,
             translatedArray := slice_from (translatedArray s) 1,
             timers := remove1 k (timers s)\<rparr>)
      else s)"

text \<open>\<open>utterance.onend\<close> and \<open>utterance.onerror\<close> of the utterance \<open>k\<close>.\<close>

definition utteranceEnd :: "nat \<Rightarrow> ('v, 'a) pipeline_scheme \<Rightarrow> ('v, 'a) pipeline_scheme" where
  "utteranceEnd k s =
     (if k \<in> set (utterances s) then
        speakEffect
          (s\<lparr>timers := remove1 k (timers s),
             isSpeaking := False,
             translatedArray := slice_from (translatedArray s) 1,
             utterances := remove1 k (utterances s)\<rparr>)
      else s)"

definition utteranceError :: "nat \<Rightarrow> ('v, 'a) pipeline_scheme \<Rightarrow> ('v, 'a) pipeline_scheme" where
  "utteranceError k s =
     (if k \<in> set (utterances s) then
        speakEffect
          (s\<lparr>timers := remove1 k (timers s),
             isSpeaking := False,
             translatedArray := slice_from (translatedArray s) 1,
             utterances := remove1 k (utterances s)\<rparr>)
      else s)"

text \<open>\<open>setPhraseArray(prev => [...prev, phrase])\<close>, and the effect of the new array.\<close>

definition handlePhrase :: "string \<Rightarrow> ('v, 'a) pipeline_scheme \<Rightarrow> ('v, 'a) pipeline_scheme" where
  "handlePhrase phrase s = translateEffect (s\<lparr>phraseArray := phraseArray s @ [phrase]\<rparr>)"

text \<open>
  What can happen to the pipeline: a segmenter appends a phrase, the outstanding fetch \<open>k\<close>
  settles with the given outcome of the \<open>try\<close> block, the utterance \<open>k\<close> ends or fails, the safety timeout \<open>k\<close> fires. An event for
  a call that is not outstanding, or for a timer that is not live, cannot happen and
  changes nothing.
\<close>

datatype 'v pipe_event =
    Phrase string
  | Settled nat "'v attempt"
  | UtteranceEnd nat
  | UtteranceError nat
  | SafetyTimeout nat

fun pipe_step :: "('v, 'a) pipeline_scheme \<Rightarrow> 'v pipe_event \<Rightarrow> ('v, 'a) pipeline_scheme" where
  "pipe_step s (Phrase p) = handlePhrase p s"
| "pipe_step s (Settled k r) = translationSettled k r s"
| "pipe_step s (UtteranceEnd k) = utteranceEnd k s"
| "pipe_step s (UtteranceError k) = utteranceError k s"
| "pipe_step s (SafetyTimeout k) = safetyTimeout k s"

section \<open>The default view: the local recognizer\<close>

record default_view = "js pipeline" +
  isListening :: bool
  wordArray :: "string list"
  lastInterim :: string
  processedWordCount :: nat
  allProcessedText :: string

text \<open>
  \<open>PROCESS 2\<close>, the effect on \<open>[wordArray]\<close>. It sets \<open>wordArray\<close>, so it runs again
  after the render it causes, until fewer than \<open>WORDS_PER_PHRASE\<close> words are left; the
  effect on the phrase array runs after the same render.
\<close>

function process2 :: "default_view \<Rightarrow> default_view" where
  "process2 s =
     (if length (wordArray s) \<ge> WORDS_PER_PHRASE then
        (let wordsToProcess = slice (wordArray s) 0 WORDS_PER_PHRASE;
             phrase = join_sp wordsToProcess
         in process2 (translateEffect
              (s\<lparr>wordArray := slice_from (wordArray s) WORDS_PER_PHRASE,
                 phraseArray := phraseArray s @ [phrase]\<rparr>)))
      else s)"
  by pat_completeness auto
termination
  by (relation "measure (\<lambda>s. length (wordArray s))")
     (auto simp: translateEffect_def translateNextPhrase_def slice_from_def WORDS_PER_PHRASE_def)

text \<open>
  The loop of \<open>recognition.onresult\<close> over \<open>event.results\<close> from \<open>event.resultIndex\<close> on:
  each result is its first alternative's transcript and its \<open>isFinal\<close> flag. The pair is
  \<open>(interimTranscript, finalTranscript)\<close>.
\<close>

definition collect :: "(string \<times> bool) list \<Rightarrow> string \<times> string" where
  "collect results =
     foldl (\<lambda>(interimTranscript, finalTranscript) (transcript, isFinal).
              if isFinal then (interimTranscript, finalTranscript @ transcript @ '' '')
              else (interimTranscript @ transcript, finalTranscript))
       ([], []) results"

definition onresult :: "(string \<times> bool) list \<Rightarrow> default_view \<Rightarrow> default_view" where
  "onresult results s =
     (let (interimTranscript, finalTranscript) = collect results in
      if trim finalTranscript \<noteq> [] then
        (let transcript = trim finalTranscript;
             textToAdd =
               (if lastInterim s \<noteq> [] \<and> startsWith transcript (lastInterim s) then
                  trim (substring transcript (length (lastInterim s)))
                else if allProcessedText s \<noteq> [] \<and> startsWith transcript (allProcessedText s) then
                  trim (substring transcript (length (allProcessedText s)))
                else transcript)
         in if textToAdd \<noteq> [] then
              process2
                (s\<lparr>wordArray := wordArray s @ split_words textToAdd,
                   allProcessedText := trim (allProcessedText s @ '' '' @ textToAdd),
                   lastInterim := [],
                   processedWordCount := 0\<rparr>)
            else s\<lparr>lastInterim := [], processedWordCount := 0\<rparr>)
      else if trim interimTranscript \<noteq> [] then
        (let currentInterim = trim interimTranscript;
             words = split_words currentInterim;
             unprocessedWordCount = int (length words) - int (processedWordCount s)
         in if unprocessedWordCount \<ge> int WORDS_PER_PHRASE then
              (let phraseWords = slice words (processedWordCount s)
                                   (processedWordCount s + WORDS_PER_PHRASE);
                   phrase = join_sp phraseWords
               in translateEffect
                    (s\<lparr>phraseArray := phraseArray s @ [phrase],
                       allProcessedText := trim (allProcessedText s @ '' '' @ phrase),
                       processedWordCount := processedWordCount s + WORDS_PER_PHRASE,
                       lastInterim := currentInterim\<rparr>))
            else s)
      else s)"

text \<open>
  \<open>handleStartStop\<close> of the default view. Stopping sets \<open>isListening\<close> and nothing else (the
  cleanup of the recognition effect then stops the recognizer); starting clears the arrays
  and the refs. The external calls that are outstanding are not part of what it clears.
\<close>

definition handleStartStop :: "default_view \<Rightarrow> default_view" where
  "handleStartStop s =
     (if isListening s then s\<lparr>isListening := False\<rparr>
      else s\<lparr>wordArray := [],
             phraseArray := [],
             translatedArray := [],
             currentTranslation := JStr [],
             recentTranslations := [],
             lastInterim := [],
             processedWordCount := 0,
             allProcessedText := [],
             isTranslating := False,
             isSpeaking := False,
             isListening := True\<rparr>)"

definition default_init :: default_view where
  "default_init =
     \<lparr>phraseArray = [], translatedArray = [], currentTranslation = JStr [],
      recentTranslations = [], isTranslating = False, isSpeaking = False,
      fetches = [], utterances = [], timers = [], fetched = [], spoken = [], nextId = 0,
      isListening = False, wordArray = [], lastInterim = [], processedWordCount = 0,
      allProcessedText = []\<rparr>"

text \<open>
  The default view reads the translation as \<open>data[0][0][0]\<close>, whatever value that is.
\<close>

definition readTranslation :: "js \<Rightarrow> thrown + js" where
  "readTranslation data =
     (case index0 data of
        Inl e \<Rightarrow> Inl e
      | Inr segments \<Rightarrow>
          (case index0 segments of
             Inl e \<Rightarrow> Inl e
           | Inr segment \<Rightarrow> index0 segment))"

text \<open>
  What can happen to the default view: a click on the button, a result event of the
  recognizer, the outstanding fetch \<open>k\<close> settling with a response of the provider, and the
  events of the pipeline. \<open>recognition.onresult\<close> has no guard of its own, and the
  recognizer's \<open>onend\<close> restarts it by the \<open>isListening\<close> of the render that created it,
  so a result is handled after a stop as well.
\<close>

datatype default_event =
    StartStop
  | Result "(string \<times> bool) list"
  | Fetched nat response
  | Pipe "js pipe_event"

fun default_step :: "default_view \<Rightarrow> default_event \<Rightarrow> default_view" where
  "default_step s StartStop = handleStartStop s"
| "default_step s (Result results) = onresult results s"
| "default_step s (Fetched k r) = fetchSettled readTranslation k r s"
| "default_step s (Pipe e) = pipe_step s e"

definition default_run :: "default_event list \<Rightarrow> default_view" where
  "default_run evs = foldl default_step default_init evs"

section \<open>The iPhone view: remote transcription\<close>

definition PASSWORD_STORAGE_KEY :: string where
  "PASSWORD_STORAGE_KEY = ''elevenlabs_password''"

text \<open>
  The component's state with that of its two hooks: \<open>token\<close>, \<open>isLoading\<close> and \<open>error\<close> of
  \<open>useElevenLabs\<close>, the counter of \<open>useElevenLabsScribe\<close>, \<open>scribe.isConnected\<close>. The
  browser's \<open>localStorage\<close> is a map from keys to values. \<open>tokenFetches\<close> logs the passwords
  sent to the token endpoint and \<open>connects\<close> the tokens given to \<open>scribe.connect\<close>, in order.
\<close>

record iphone_view = "string pipeline" +
  password :: string
  passwordInput :: string
  isAuthenticating :: bool
  authError :: "string option"
  token :: "string option"
  isLoading :: bool
  error :: "string option"
  localStorage :: "string \<rightharpoonup> string"
  isConnected :: bool
  scribeWordCount :: nat
  tokenFetches :: "string list"
  connects :: "string list"

text \<open>
  What the token endpoint does with one request: the \<open>fetch\<close> or \<open>response.json()\<close> rejects
  with a message, the response is not \<open>ok\<close> (with its \<open>statusText\<close>), or the body is read
  and \<open>data.token\<close> is the given string (\<open>''\<close> when it is missing).
\<close>

datatype token_response = TokenThrew string | TokenNotOk string | TokenBody string

text \<open>\<open>getToken\<close>: \<open>Inl\<close> is the message of the error it throws, \<open>Inr\<close> the token it returns.\<close>

definition getToken :: "string \<Rightarrow> token_response \<Rightarrow> iphone_view \<Rightarrow> (string + string) \<times> iphone_view" where
  "getToken pw resp s =
     (if pw = [] then (Inl ''Password is required'', s)
      else
        (let s1 = s\<lparr>isLoading := True, error := None, tokenFetches := tokenFetches s @ [pw]\<rparr>
         in case resp of
              TokenThrew msg \<Rightarrow> (Inl msg, s1\<lparr>error := Some msg, isLoading := False\<rparr>)
            | TokenNotOk statusText \<Rightarrow>
                (Inl (''Failed to get ElevenLabs token: '' @ statusText),
                 s1\<lparr>error := Some (''Failed to get ElevenLabs token: '' @ statusText),
                    isLoading := False\<rparr>)
            | TokenBody newToken \<Rightarrow>
                (if newToken = [] then
                   (Inl ''Token not found in response'',
                    s1\<lparr>error := Some ''Token not found in response'', isLoading := False\<rparr>)
                 else (Inr newToken, s1\<lparr>token := Some newToken, isLoading := False\<rparr>))))"

definition clearToken :: "iphone_view \<Rightarrow> iphone_view" where
  "clearToken s = s\<lparr>token := None, error := None\<rparr>"

text \<open>The initial state of a mount: the password is read from \<open>localStorage\<close>.\<close>

definition iphone_mount :: "(string \<rightharpoonup> string) \<Rightarrow> iphone_view" where
  "iphone_mount ls =
     \<lparr>phraseArray = [], translatedArray = [], currentTranslation = [],
      recentTranslations = [], isTranslating = False, isSpeaking = False,
      fetches = [], utterances = [], timers = [], fetched = [], spoken = [], nextId = 0,
      password = (case ls PASSWORD_STORAGE_KEY of None \<Rightarrow> [] | Some p \<Rightarrow> p),
      passwordInput = [], isAuthenticating = False, authError = None,
      token = None, isLoading = False, error = None, localStorage = ls,
      isConnected = False, scribeWordCount = 0, tokenFetches = [], connects = []\<rparr>"

text \<open>The effect on \<open>[password, token, isLoading, getToken]\<close>; a failure is swallowed.\<close>

definition tokenEffect :: "token_response \<Rightarrow> iphone_view \<Rightarrow> iphone_view" where
  "tokenEffect resp s =
     (if password s \<noteq> [] \<and> token s = None \<and> \<not> isLoading s
      then snd (getToken (password s) resp s) else s)"

definition handlePasswordSubmit :: "token_response \<Rightarrow> iphone_view \<Rightarrow> iphone_view" where
  "handlePasswordSubmit resp s =
     (if trim (passwordInput s) = [] then s\<lparr>authError := Some ''Please enter a password''\<rparr>
      else
        (case getToken (passwordInput s) resp (s\<lparr>isAuthenticating := True, authError := None\<rparr>) of
           (Inr t, s2) \<Rightarrow>
             s2\<lparr>localStorage := (localStorage s2)(PASSWORD_STORAGE_KEY \<mapsto> passwordInput s),
                password := passwordInput s,
                passwordInput := [],
                isAuthenticating := False\<rparr>
         | (Inl msg, s2) \<Rightarrow> s2\<lparr>authError := Some msg, isAuthenticating := False\<rparr>))"

definition handleLogout :: "iphone_view \<Rightarrow> iphone_view" where
  "handleLogout s =
     (clearToken (s\<lparr>localStorage := (localStorage s)(PASSWORD_STORAGE_KEY := None)\<rparr>))
       \<lparr>password := [], passwordInput := [], authError := None\<rparr>"

text \<open>
  \<open>handleStartStop\<close> of the iPhone view, with the token endpoint's response and whether
  \<open>scribe.connect\<close> succeeds. Both awaits are taken in the same step. The stop branch is
  \<open>scribe.disconnect()\<close>, which is the hook's \<open>disconnect\<close>, and the reset of the two refs.
  In the start branch a missing password throws before anything is cleared; every throw
  ends in the \<open>alert\<close> of the \<open>catch\<close>. The empty utterance that primes the speech
  synthesis has no handlers and no timeout; it is not part of the state.
\<close>

definition handleStartStop_iphone :: "token_response \<Rightarrow> bool \<Rightarrow> iphone_view \<Rightarrow> iphone_view" where
  "handleStartStop_iphone resp connectOk s =
     (if isConnected s then
        s\<lparr>isConnected := False,
          scribeWordCount := fst (disconnect (scribeWordCount s)),
          isTranslating := False,
          isSpeaking := False\<rparr>
      else if password s = [] then s
      else
        (case getToken (password s) resp
                (s\<lparr>phraseArray := [], translatedArray := [], currentTranslation := [],
                   isTranslating := False, isSpeaking := False\<rparr>) of
           (Inr freshToken, s2) \<Rightarrow>
             (if connectOk then s2\<lparr>connects := connects s2 @ [freshToken], isConnected := True\<rparr>
              else s2\<lparr>connects := connects s2 @ [freshToken]\<rparr>)
         | (Inl msg, s2) \<Rightarrow> s2))"

text \<open>
  The iPhone view reads the translation as \<open>data[0].map(segment => segment[0]).join('')\<close>:
  calling \<open>map\<close> throws unless \<open>data[0]\<close> is an array.
\<close>

definition readTranslation_iphone :: "js \<Rightarrow> thrown + string" where
  "readTranslation_iphone data =
     (case index0 data of
        Inl e \<Rightarrow> Inl e
      | Inr (JArr segments) \<Rightarrow>
          (case map_index0 segments of
             Inl e \<Rightarrow> Inl e
           | Inr parts \<Rightarrow> Inr (join_by [] (map join_text parts)))
      | Inr other \<Rightarrow> Inl TypeError)"

text \<open>A transcript event of the hook, delivered while connected: its phrases go to \<open>handlePhrase\<close>.\<close>

definition scribe_event :: "(nat \<Rightarrow> nat \<times> string list) \<Rightarrow> iphone_view \<Rightarrow> iphone_view" where
  "scribe_event handler s =
     (if isConnected s then
        (case handler (scribeWordCount s) of
           (n, phrases) \<Rightarrow> foldl (\<lambda>st p. handlePhrase p st) (s\<lparr>scribeWordCount := n\<rparr>) phrases)
      else s)"

text \<open>
  What can happen to the iPhone view. The start/stop button is rendered when a password is
  set and is disabled while no token is held, so a click does nothing otherwise.
\<close>

datatype iphone_event =
    TypePassword string
  | SubmitPassword token_response
  | Logout
  | TokenEffect token_response
  | ClickStartStop token_response bool
  | PartialTranscript string
  | CommittedTranscript string
  | IFetched nat response
  | IPipe "string pipe_event"

fun iphone_step :: "iphone_view \<Rightarrow> iphone_event \<Rightarrow> iphone_view" where
  "iphone_step s (TypePassword p) = s\<lparr>passwordInput := p\<rparr>"
| "iphone_step s (SubmitPassword resp) = handlePasswordSubmit resp s"
| "iphone_step s Logout = handleLogout s"
| "iphone_step s (TokenEffect resp) = tokenEffect resp s"
| "iphone_step s (ClickStartStop resp ok) =
     (if password s \<noteq> [] \<and> token s \<noteq> None then handleStartStop_iphone resp ok s else s)"
| "iphone_step s (PartialTranscript text) = scribe_event (onPartialTranscript text) s"
| "iphone_step s (CommittedTranscript text) = scribe_event (onCommittedTranscript text) s"
| "iphone_step s (IFetched k r) = fetchSettled readTranslation_iphone k r s"
| "iphone_step s (IPipe e) = pipe_step s e"

definition iphone_run :: "(string \<rightharpoonup> string) \<Rightarrow> iphone_event list \<Rightarrow> iphone_view" where
  "iphone_run ls evs = foldl iphone_step (iphone_mount ls) evs"

section \<open>Notions used by the properties\<close>

text \<open>A word: a non-empty string without white space.\<close>

definition is_word :: "string \<Rightarrow> bool" where
  "is_word w = (w \<noteq> [] \<and> list_all (\<lambda>c. \<not> is_space c) w)"

text \<open>
  A translation call is outstanding while its fetch has not settled. A playback is
  outstanding from \<open>speak\<close> until its \<open>onend\<close>, its \<open>onerror\<close> or its safety timeout,
  whichever comes first, that is, while its timer is live. Single flight: at most one of
  each, and each lock is held exactly while its call is outstanding.
\<close>

definition single_flight :: "('v, 'a) pipeline_scheme \<Rightarrow> bool" where
  "single_flight s =
     (length (fetches s) \<le> 1 \<and> isTranslating s = (fetches s \<noteq> []) \<and>
      length (timers s) \<le> 1 \<and> isSpeaking s = (timers s \<noteq> []))"

text \<open>
  A run of pipeline events is timely when no utterance signals \<open>onend\<close> or \<open>onerror\<close> after
  its safety timeout has fired.
\<close>

fun timely_event :: "('v, 'a) pipeline_scheme \<Rightarrow> 'v pipe_event \<Rightarrow> bool" where
  "timely_event s (UtteranceEnd k) = (k \<in> set (timers s))"
| "timely_event s (UtteranceError k) = (k \<in> set (timers s))"
| "timely_event s e = True"

fun timely :: "('v, 'a) pipeline_scheme \<Rightarrow> 'v pipe_event list \<Rightarrow> bool" where
  "timely s [] = True"
| "timely s (e # es) = (timely_event s e \<and> timely (pipe_step s e) es)"

text \<open>The token endpoint's response carries a token.\<close>

fun token_ok :: "token_response \<Rightarrow> bool" where
  "token_ok (TokenBody t) = (t \<noteq> [])"
| "token_ok r = False"

section \<open>Splitting and joining\<close>

lemma trim_Nil: "trim [] = []"
  by (simp add: trim_def)

lemma split_words_Nil: "split_words [] = []"
  by (simp add: split_words_def)

lemma split_ws_word: "list_all (\<lambda>c. \<not> is_space c) w \<Longrightarrow> split_ws w = [w]"
  by (induction w) (auto split: list.splits)

lemma split_ws_word_app:
  "list_all (\<lambda>c. \<not> is_space c) w \<Longrightarrow>
   split_ws (w @ CHR '' '' # s) = w # split_ws (dropWhile is_space s)"
  by (induction w) (auto split: list.splits simp: is_space_def)

lemma join_sp_starts_word:
  "is_word v \<Longrightarrow> dropWhile is_space (join_sp (v # ws)) = join_sp (v # ws)"
  by (cases v; cases ws) (auto simp: is_word_def)

lemma split_ws_join:
  "list_all is_word ws \<Longrightarrow> ws \<noteq> [] \<Longrightarrow> split_ws (join_sp ws) = ws"
proof (induction ws rule: join_sp.induct)
  case 1
  then show ?case by simp
next
  case (2 w)
  then show ?case by (simp add: is_word_def split_ws_word)
next
  case (3 w v ws)
  then have w: "list_all (\<lambda>c. \<not> is_space c) w" and v: "is_word v"
    by (simp_all add: is_word_def)
  have "split_ws (join_sp (w # v # ws)) = w # split_ws (join_sp (v # ws))"
    using split_ws_word_app [OF w] join_sp_starts_word [OF v] by simp
  with 3 show ?case by simp
qed

text \<open>Joining words with single spaces and splitting again gives the words back.\<close>

lemma split_words_join: "list_all is_word ws \<Longrightarrow> split_words (join_sp ws) = ws"
proof (cases ws)
  case Nil
  then show ?thesis by (simp add: split_words_def)
next
  case (Cons w ws')
  assume a: "list_all is_word ws"
  then have "split_ws (join_sp ws) = ws" using Cons split_ws_join by blast
  moreover have "filter (\<lambda>w. length w > 0) ws = ws"
    using a by (induction ws) (auto simp: is_word_def)
  ultimately show ?thesis by (simp add: split_words_def)
qed

lemma split_ws_no_space: "list_all (list_all (\<lambda>c. \<not> is_space c)) (split_ws s)"
  by (induction s rule: split_ws.induct) (auto split: list.splits)

lemma split_words_is_word: "list_all is_word (split_words s)"
  using split_ws_no_space [of s]
  by (induction "split_ws s" arbitrary: s) (auto simp: split_words_def is_word_def list_all_iff)

lemma join_sp_nonempty: "list_all is_word ws \<Longrightarrow> ws \<noteq> [] \<Longrightarrow> join_sp ws \<noteq> []"
  by (induction ws rule: join_sp.induct) (auto simp: is_word_def)

lemma is_word_take_drop: "list_all is_word ws \<Longrightarrow> list_all is_word (take k (drop n ws))"
  by (auto simp: list_all_iff dest: in_set_takeD in_set_dropD)

lemma take_words_phrase:
  assumes "length ws \<ge> n + k" and "list_all is_word ws"
  shows "length (split_words (join_sp (take k (drop n ws)))) = k"
proof -
  have "split_words (join_sp (take k (drop n ws))) = take k (drop n ws)"
    using assms(2) by (intro split_words_join is_word_take_drop)
  then show ?thesis using assms(1) by simp
qed

section \<open>The segmenters, handler by handler\<close>

lemma onPartialTranscript_eq:
  "onPartialTranscript text n =
     (if int (length (split_words (trim text))) - int n \<ge> int WORDS_PER_PHRASE
      then (n + WORDS_PER_PHRASE,
            [join_sp (take WORDS_PER_PHRASE (drop n (split_words (trim text))))])
      else (n, []))"
proof (cases "trim text = []")
  case True
  then show ?thesis
    by (simp add: onPartialTranscript_def split_words_Nil WORDS_PER_PHRASE_def)
next
  case False
  then have "text \<noteq> []" using trim_Nil by auto
  with False show ?thesis
    by (simp add: onPartialTranscript_def Let_def slice_def)
qed

lemma onCommittedTranscript_eq:
  "onCommittedTranscript text n =
     (if trim text = [] then (n, [])
      else (0, if n < length (split_words (trim text))
               then [join_sp (drop n (split_words (trim text)))] else []))"
proof (cases "trim text = []")
  case True
  then show ?thesis by (simp add: onCommittedTranscript_def)
next
  case False
  then have t: "text \<noteq> []" using trim_Nil by auto
  have "n < length (split_words (trim text)) \<Longrightarrow>
        join_sp (drop n (split_words (trim text))) \<noteq> []"
    using join_sp_nonempty [of "drop n (split_words (trim text))"]
      split_words_is_word [of "trim text"]
    by (auto simp: list_all_iff dest: in_set_dropD)
  with False t show ?thesis
    by (auto simp: onCommittedTranscript_def Let_def slice_from_def)
qed

lemma phraseArray_translateEffect [simp]: "phraseArray (translateEffect s) = phraseArray s"
  by (simp add: translateEffect_def translateNextPhrase_def)

lemma wordArray_translateEffect [simp]: "wordArray (translateEffect d) = wordArray d"
  by (simp add: translateEffect_def translateNextPhrase_def)

lemma processedWordCount_translateEffect [simp]:
  "processedWordCount (translateEffect d) = processedWordCount d"
  by (simp add: translateEffect_def translateNextPhrase_def)

declare process2.simps [simp del]

text \<open>
  \<open>PROCESS 2\<close> appends phrases of exactly \<open>WORDS_PER_PHRASE\<close> words and leaves fewer than
  that many words in the word array.
\<close>

lemma process2_phrases:
  "list_all is_word (wordArray s) \<Longrightarrow>
   \<exists>new. phraseArray (process2 s) = phraseArray s @ new \<and>
         list_all (\<lambda>p. length (split_words p) = WORDS_PER_PHRASE) new \<and>
         list_all is_word (wordArray (process2 s)) \<and>
         length (wordArray (process2 s)) < WORDS_PER_PHRASE"
proof (induction s rule: process2.induct)
  case (1 s)
  show ?case
  proof (cases "length (wordArray s) \<ge> WORDS_PER_PHRASE")
    case False
    then show ?thesis using "1.prems" by (subst (1 2 3) process2.simps) simp
  next
    case True
    let ?p = "join_sp (slice (wordArray s) 0 WORDS_PER_PHRASE)"
    let ?s' = "translateEffect (s\<lparr>wordArray := slice_from (wordArray s) WORDS_PER_PHRASE,
                 phraseArray := phraseArray s @ [?p]\<rparr>)"
    have step: "process2 s = process2 ?s'"
      using True by (subst process2.simps) (simp add: Let_def)
    have w: "list_all is_word (wordArray ?s')"
      using "1.prems" by (auto simp: slice_from_def list_all_iff dest: in_set_dropD)
    from "1.IH" [OF True refl refl w] obtain new where
      new: "phraseArray (process2 ?s') = phraseArray ?s' @ new"
        "list_all (\<lambda>p. length (split_words p) = WORDS_PER_PHRASE) new"
        "list_all is_word (wordArray (process2 ?s'))"
        "length (wordArray (process2 ?s')) < WORDS_PER_PHRASE"
      by blast
    have p: "length (split_words ?p) = WORDS_PER_PHRASE"
      using take_words_phrase [of 0 WORDS_PER_PHRASE "wordArray s"] True "1.prems"
      by (simp add: slice_def)
    show ?thesis
      using new p unfolding step by (intro exI [of _ "?p # new"]) simp
  qed
qed

text \<open>A result event without final text is handled by the interim branch alone.\<close>

lemma onresult_interim:
  assumes "trim (snd (collect results)) = []"
  shows "onresult results s =
     (let words = split_words (trim (fst (collect results))) in
      if int (length words) - int (processedWordCount s) \<ge> int WORDS_PER_PHRASE then
        translateEffect
          (s\<lparr>phraseArray := phraseArray s @
                 [join_sp (take WORDS_PER_PHRASE (drop (processedWordCount s) words))],
             allProcessedText := trim (allProcessedText s @ '' '' @
                 join_sp (take WORDS_PER_PHRASE (drop (processedWordCount s) words))),
             processedWordCount := processedWordCount s + WORDS_PER_PHRASE,
             lastInterim := trim (fst (collect results))\<rparr>)
      else s)"
proof -
  obtain i f where c: "collect results = (i, f)" by (cases "collect results")
  with assms have f: "trim f = []" by simp
  show ?thesis
  proof (cases "trim i = []")
    case True
    with f c show ?thesis
      by (simp add: onresult_def split_words_Nil WORDS_PER_PHRASE_def)
  next
    case False
    with f c show ?thesis
      by (simp add: onresult_def Let_def slice_def)
  qed
qed

text \<open>A result event with final text is handled by the final branch, for some text to add.\<close>

lemma onresult_final:
  assumes "trim (snd (collect results)) \<noteq> []"
  shows "\<exists>textToAdd. onresult results s =
     (if textToAdd \<noteq> [] then
        process2 (s\<lparr>wordArray := wordArray s @ split_words textToAdd,
                    allProcessedText := trim (allProcessedText s @ '' '' @ textToAdd),
                    lastInterim := [], processedWordCount := 0\<rparr>)
      else s\<lparr>lastInterim := [], processedWordCount := 0\<rparr>)"
proof -
  obtain i f where c: "collect results = (i, f)" by (cases "collect results")
  with assms have f: "trim f \<noteq> []" by simp
  let ?x = "if lastInterim s \<noteq> [] \<and> startsWith (trim f) (lastInterim s)
            then trim (substring (trim f) (length (lastInterim s)))
            else if allProcessedText s \<noteq> [] \<and> startsWith (trim f) (allProcessedText s)
            then trim (substring (trim f) (length (allProcessedText s)))
            else trim f"
  show ?thesis
    by (rule exI [of _ ?x]) (simp only: onresult_def c Let_def prod.case f not_False_eq_True if_True)
qed

lemma onresult_phrases:
  assumes "list_all is_word (wordArray s)"
  shows "\<exists>new. phraseArray (onresult results s) = phraseArray s @ new \<and>
           list_all (\<lambda>p. length (split_words p) = WORDS_PER_PHRASE) new \<and>
           list_all is_word (wordArray (onresult results s))"
proof (cases "trim (snd (collect results)) = []")
  case True
  let ?words = "split_words (trim (fst (collect results)))"
  show ?thesis
  proof (cases "int (length ?words) - int (processedWordCount s) \<ge> int WORDS_PER_PHRASE")
    case False
    with True assms show ?thesis by (simp add: onresult_interim Let_def)
  next
    case ge: True
    then have "length ?words \<ge> processedWordCount s + WORDS_PER_PHRASE" by simp
    then have "length (split_words (join_sp (take WORDS_PER_PHRASE (drop (processedWordCount s) ?words))))
        = WORDS_PER_PHRASE"
      using split_words_is_word by (rule take_words_phrase)
    with True ge assms show ?thesis by (simp add: onresult_interim Let_def)
  qed
next
  case False
  from onresult_final [OF False, of s] obtain x where x: "onresult results s =
     (if x \<noteq> [] then
        process2 (s\<lparr>wordArray := wordArray s @ split_words x,
                    allProcessedText := trim (allProcessedText s @ '' '' @ x),
                    lastInterim := [], processedWordCount := 0\<rparr>)
      else s\<lparr>lastInterim := [], processedWordCount := 0\<rparr>)" by blast
  show ?thesis
  proof (cases "x = []")
    case True
    with x assms show ?thesis by simp
  next
    case ne: False
    let ?s1 = "s\<lparr>wordArray := wordArray s @ split_words x,
                    allProcessedText := trim (allProcessedText s @ '' '' @ x),
                    lastInterim := [], processedWordCount := 0\<rparr>"
    have "list_all is_word (wordArray ?s1)"
      using assms split_words_is_word [of x] by simp
    from process2_phrases [OF this] x ne show ?thesis by auto
  qed
qed

section \<open>Claims about the segmenters\<close>

text \<open>
  Claim C1 (dedup invariant: after partial revisions and a final revision with the same
  text, every spoken word is in exactly one phrase, also the words that the last
  phrase-emitting partial had beyond its last full group). The default view at the partial
  \<open>a b c d e f g h i j k l\<close> followed by the final of the same text: the partial emits the
  first ten words and keeps its whole text in \<open>lastInterim\<close>; the final branch then strips
  the whole of \<open>lastInterim\<close>, not the ten processed words, so \<open>k\<close> and \<open>l\<close> are in no phrase
  and not in the word array either. With twenty words a full second group is lost the same
  way. The remote segmenter's \<open>onCommittedTranscript\<close> slices from the processed counter
  and passes \<open>k l\<close> on.
\<close>

theorem C1_final_drops_tail_of_last_interim:
  "(let s = default_run [StartStop,
              Result [(''a b c d e f g h i j k l'', False)],
              Result [(''a b c d e f g h i j k l'', True)]]
    in phraseArray s = [''a b c d e f g h i j''] \<and> wordArray s = [] \<and>
       allProcessedText s = ''a b c d e f g h i j'' \<and> lastInterim s = [] \<and>
       processedWordCount s = 0) \<and>
   (let s = default_run [StartStop,
              Result [(''a b c d e f g h i j k l m n o p q r s t'', False)],
              Result [(''a b c d e f g h i j k l m n o p q r s t'', True)]]
    in phraseArray s = [''a b c d e f g h i j''] \<and> wordArray s = []) \<and>
   snd (onCommittedTranscript ''a b c d e f g h i j k l''
          (fst (onPartialTranscript ''a b c d e f g h i j k l'' 0))) = [''k l'']"
  by code_simp

text \<open>
  Claim C2, as stated (a partial revision emits all complete groups of unprocessed words,
  so a jump by two groups yields two phrases), fails: a partial of twenty words at counter
  0 emits the first ten words and nothing else, in both segmenters.
\<close>

theorem C2_counterexample:
  "snd (onPartialTranscript ''a b c d e f g h i j k l m n o p q r s t'' 0) = [''a b c d e f g h i j''] \<and>
   length (split_words (trim ''a b c d e f g h i j k l m n o p q r s t'')) - 0 = 2 * WORDS_PER_PHRASE \<and>
   phraseArray (default_run [StartStop, Result [(''a b c d e f g h i j k l m n o p q r s t'', False)]])
     = [''a b c d e f g h i j'']"
  by code_simp

text \<open>
  Claim C2, amended: a partial revision emits at most one phrase. When at least
  \<open>WORDS_PER_PHRASE\<close> words are unprocessed it emits the next \<open>WORDS_PER_PHRASE\<close> words
  from the counter on as one phrase and advances the counter by \<open>WORDS_PER_PHRASE\<close>;
  otherwise it emits nothing and changes nothing. This holds for \<open>onPartialTranscript\<close> of
  the remote segmenter and for the interim branch of \<open>onresult\<close> of the default view (a
  result event without final text).
\<close>

theorem C2_partial_emits_one_phrase:
  "(let words = split_words (trim text) in
      onPartialTranscript text n =
        (if int (length words) - int n \<ge> int WORDS_PER_PHRASE
         then (n + WORDS_PER_PHRASE, [join_sp (take WORDS_PER_PHRASE (drop n words))])
         else (n, []))) \<and>
   (trim (snd (collect results)) = [] \<longrightarrow>
     (let words = split_words (trim (fst (collect results))); s' = onresult results s in
        if int (length words) - int (processedWordCount s) \<ge> int WORDS_PER_PHRASE
        then phraseArray s' = phraseArray s @
               [join_sp (take WORDS_PER_PHRASE (drop (processedWordCount s) words))] \<and>
             processedWordCount s' = processedWordCount s + WORDS_PER_PHRASE
        else s' = s))"
  using onPartialTranscript_eq [of "text" n] onresult_interim [of results s]
  by (simp add: Let_def)

theorem C2_partial_emits_one_phrase_witness:
  "trim (snd (collect [(''a b c d e f g h i j k l m n o p q r s t'', False)])) = [] \<and>
   phraseArray (onresult [(''a b c d e f g h i j k l m n o p q r s t'', False)] (default_run [StartStop]))
     = [''a b c d e f g h i j''] \<and>
   processedWordCount (onresult [(''a b c d e f g h i j k l m n o p q r s t'', False)] (default_run [StartStop])) = 10"
proof -
  let ?t = "''a b c d e f g h i j k l m n o p q r s t''"
  have h: "trim (snd (collect [(?t, False)])) = []" by code_simp
  have w: "split_words (trim (fst (collect [(?t, False)]))) =
      [''a'', ''b'', ''c'', ''d'', ''e'', ''f'', ''g'', ''h'', ''i'', ''j'',
       ''k'', ''l'', ''m'', ''n'', ''o'', ''p'', ''q'', ''r'', ''s'', ''t'']" by code_simp
  have p: "phraseArray (default_run [StartStop]) = []" "processedWordCount (default_run [StartStop]) = 0"
    by code_simp+
  show ?thesis
    using C2_partial_emits_one_phrase [of ?t 0 "[(?t, False)]" "default_run [StartStop]"] h
    by (simp add: w p Let_def WORDS_PER_PHRASE_def)
qed

text \<open>
  Claim C3, as stated (every phrase has exactly \<open>WORDS_PER_PHRASE\<close> words but the last of
  a session; none has more, none is short in mid-session), fails in the remote segmenter:
  a committed transcript of twelve words at counter 0 is passed on as one phrase of twelve
  words, and a committed transcript of three words is passed on as a phrase of three words
  while the session goes on to the next phrase.
\<close>

theorem C3_counterexample:
  "snd (onCommittedTranscript ''a b c d e f g h i j k l'' 0) = [''a b c d e f g h i j k l''] \<and>
   length (split_words ''a b c d e f g h i j k l'') = 12 \<and>
   phraseArray (iphone_run [PASSWORD_STORAGE_KEY \<mapsto> ''pw'']
      [TokenEffect (TokenBody ''tok0''), ClickStartStop (TokenBody ''tok'') True, CommittedTranscript ''a b c'',
       CommittedTranscript ''d e f g'']) = [''a b c'', ''d e f g'']"
  by code_simp

text \<open>
  Claim C3, amended: a phrase emitted on a partial revision (\<open>onPartialTranscript\<close>) and
  every phrase that a result event of the default view appends to the phrase array (from
  its interim branch or through \<open>PROCESS 2\<close>) has exactly \<open>WORDS_PER_PHRASE\<close> words. A
  committed transcript of the remote segmenter emits all its words beyond the counter as
  one phrase, of as many words as there are: fewer or more than \<open>WORDS_PER_PHRASE\<close>, at any
  point of the session.
\<close>

theorem C3_phrase_sizes:
  "list_all (\<lambda>p. length (split_words p) = WORDS_PER_PHRASE) (snd (onPartialTranscript text n)) \<and>
   (list_all is_word (wordArray s) \<longrightarrow>
      (let s' = onresult results s in
         take (length (phraseArray s)) (phraseArray s') = phraseArray s \<and>
         list_all (\<lambda>p. length (split_words p) = WORDS_PER_PHRASE)
           (drop (length (phraseArray s)) (phraseArray s')) \<and>
         list_all is_word (wordArray s'))) \<and>
   (let words = split_words (trim text) in
      snd (onCommittedTranscript text m) =
        (if m < length words then [join_sp (drop m words)] else []) \<and>
      (m < length words \<longrightarrow> split_words (join_sp (drop m words)) = drop m words))"
proof (intro conjI impI)
  let ?words = "split_words (trim text)"
  show "list_all (\<lambda>p. length (split_words p) = WORDS_PER_PHRASE) (snd (onPartialTranscript text n))"
  proof (cases "int (length ?words) - int n \<ge> int WORDS_PER_PHRASE")
    case True
    then have "length ?words \<ge> n + WORDS_PER_PHRASE" by simp
    then have "length (split_words (join_sp (take WORDS_PER_PHRASE (drop n ?words)))) = WORDS_PER_PHRASE"
      using split_words_is_word by (rule take_words_phrase)
    with True show ?thesis by (simp add: onPartialTranscript_eq)
  next
    case False
    then show ?thesis by (simp add: onPartialTranscript_eq)
  qed
next
  assume "list_all is_word (wordArray s)"
  from onresult_phrases [OF this, of results]
  show "let s' = onresult results s in
         take (length (phraseArray s)) (phraseArray s') = phraseArray s \<and>
         list_all (\<lambda>p. length (split_words p) = WORDS_PER_PHRASE)
           (drop (length (phraseArray s)) (phraseArray s')) \<and>
         list_all is_word (wordArray s')"
    by (auto simp: Let_def)
next
  have "list_all is_word (drop m (split_words (trim text)))"
    using split_words_is_word [of "trim text"] by (auto simp: list_all_iff dest: in_set_dropD)
  then have "split_words (join_sp (drop m (split_words (trim text)))) = drop m (split_words (trim text))"
    by (rule split_words_join)
  then show "let words = split_words (trim text) in
      snd (onCommittedTranscript text m) =
        (if m < length words then [join_sp (drop m words)] else []) \<and>
      (m < length words \<longrightarrow> split_words (join_sp (drop m words)) = drop m words)"
    by (simp add: onCommittedTranscript_eq Let_def split_words_Nil)
qed

theorem C3_phrase_sizes_witness:
  "list_all is_word (wordArray (default_run [StartStop])) \<and>
   0 < length (split_words (trim ''a b c d e f g h i j k l'')) \<and>
   list_all (\<lambda>p. length (split_words p) = WORDS_PER_PHRASE)
     (drop (length (phraseArray (default_run [StartStop])))
        (phraseArray (onresult [(''a b c d e f g h i j k l'', True)] (default_run [StartStop])))) \<and>
   split_words (join_sp (drop 0 (split_words (trim ''a b c d e f g h i j k l'')))) =
     drop 0 (split_words (trim ''a b c d e f g h i j k l''))"
proof -
  have h1: "list_all is_word (wordArray (default_run [StartStop]))" by code_simp
  have h2: "0 < length (split_words (trim ''a b c d e f g h i j k l''))" by code_simp
  show ?thesis
    using C3_phrase_sizes [of "''a b c d e f g h i j k l''" 0 "default_run [StartStop]"
        "[(''a b c d e f g h i j k l'', True)]" 0] h1 h2
    by (simp add: Let_def)
qed

section \<open>The pipeline keeps single flight in timely runs\<close>

lemma remove1_single: "length xs \<le> 1 \<Longrightarrow> k \<in> set xs \<Longrightarrow> remove1 k xs = []"
  by (cases xs) auto

lemma single_flight_translateEffect: "single_flight s \<Longrightarrow> single_flight (translateEffect s)"
  by (auto simp: single_flight_def translateEffect_def translateNextPhrase_def)

lemma single_flight_speakEffect: "single_flight s \<Longrightarrow> single_flight (speakEffect s)"
  by (auto simp: single_flight_def speakEffect_def speakNextPhrase_def)

lemma single_flight_step:
  assumes "single_flight s" and "timely_event s e"
  shows "single_flight (pipe_step s e)"
proof (cases e)
  case (Phrase p)
  have "single_flight (s\<lparr>phraseArray := phraseArray s @ [p]\<rparr>)"
    using assms(1) by (simp add: single_flight_def)
  then show ?thesis using Phrase by (simp add: handlePhrase_def single_flight_translateEffect)
next
  case (Settled k r)
  show ?thesis
  proof (cases "k \<in> set (fetches s)")
    case False
    then show ?thesis using Settled assms(1) by (simp add: translationSettled_def)
  next
    case True
    then have r: "remove1 k (fetches s) = []"
      using assms(1) by (simp add: single_flight_def remove1_single)
    show ?thesis
    proof (cases r)
      case (Threw x)
      have "single_flight (s\<lparr>phraseArray := slice_from (phraseArray s) 1,
                  isTranslating := False, fetches := remove1 k (fetches s)\<rparr>)"
        using assms(1) r by (simp add: single_flight_def)
      then show ?thesis using Settled True Threw
        by (simp add: translationSettled_def single_flight_translateEffect)
    next
      case (Translated t)
      have "single_flight (s\<lparr>phraseArray := slice_from (phraseArray s) 1,
                  translatedArray := translatedArray s @ [t],
                  recentTranslations := slice_last3 (recentTranslations s @ [t]),
                  isTranslating := False,
                  fetches := remove1 k (fetches s)\<rparr>)"
        using assms(1) r by (simp add: single_flight_def)
      then show ?thesis using Settled True Translated
        by (simp add: translationSettled_def single_flight_translateEffect single_flight_speakEffect)
    qed
  qed
next
  case (UtteranceEnd k)
  show ?thesis
  proof (cases "k \<in> set (utterances s)")
    case False
    then show ?thesis using UtteranceEnd assms(1) by (simp add: utteranceEnd_def)
  next
    case True
    have "k \<in> set (timers s)" using assms(2) UtteranceEnd by simp
    then have "remove1 k (timers s) = []"
      using assms(1) by (simp add: single_flight_def remove1_single)
    then have "single_flight (s\<lparr>timers := remove1 k (timers s), isSpeaking := False,
             translatedArray := slice_from (translatedArray s) 1,
             utterances := remove1 k (utterances s)\<rparr>)"
      using assms(1) by (simp add: single_flight_def)
    then show ?thesis using UtteranceEnd True
      by (simp add: utteranceEnd_def single_flight_speakEffect)
  qed
next
  case (UtteranceError k)
  show ?thesis
  proof (cases "k \<in> set (utterances s)")
    case False
    then show ?thesis using UtteranceError assms(1) by (simp add: utteranceError_def)
  next
    case True
    have "k \<in> set (timers s)" using assms(2) UtteranceError by simp
    then have "remove1 k (timers s) = []"
      using assms(1) by (simp add: single_flight_def remove1_single)
    then have "single_flight (s\<lparr>timers := remove1 k (timers s), isSpeaking := False,
             translatedArray := slice_from (translatedArray s) 1,
             utterances := remove1 k (utterances s)\<rparr>)"
      using assms(1) by (simp add: single_flight_def)
    then show ?thesis using UtteranceError True
      by (simp add: utteranceError_def single_flight_speakEffect)
  qed
next
  case (SafetyTimeout k)
  show ?thesis
  proof (cases "k \<in> set (timers s)")
    case False
    then show ?thesis using SafetyTimeout assms(1) by (simp add: safetyTimeout_def)
  next
    case True
    then have "remove1 k (timers s) = []"
      using assms(1) by (simp add: single_flight_def remove1_single)
    then have "single_flight (s\<lparr>isSpeaking := False,
             translatedArray := slice_from (translatedArray s) 1,
             timers := remove1 k (timers s)\<rparr>)"
      using assms(1) by (simp add: single_flight_def)
    then show ?thesis using SafetyTimeout True
      by (simp add: safetyTimeout_def single_flight_speakEffect)
  qed
qed

lemma single_flight_run:
  "single_flight s \<Longrightarrow> timely s evs \<Longrightarrow> single_flight (foldl pipe_step s evs)"
  by (induction evs arbitrary: s) (auto intro: single_flight_step)

text \<open>The \<open>catch\<close> branch and the \<open>try\<close> branch of a settling fetch.\<close>

lemma translationSettled_Threw:
  assumes "k \<in> set (fetches s)"
  shows "(let s' = translationSettled k (Threw e) s in
        phraseArray s' = drop 1 (phraseArray s) \<and>
        translatedArray s' = translatedArray s \<and>
        recentTranslations s' = recentTranslations s \<and>
        spoken s' = spoken s \<and>
        (if drop 1 (phraseArray s) = [] then
           \<not> isTranslating s' \<and> fetched s' = fetched s \<and> fetches s' = remove1 k (fetches s)
         else
           isTranslating s' \<and> fetched s' = fetched s @ [hd (drop 1 (phraseArray s))] \<and>
           fetches s' = remove1 k (fetches s) @ [nextId s]))"
  using assms
  by (auto simp: translationSettled_def translateEffect_def translateNextPhrase_def
      slice_from_def Let_def)

lemma translatedArray_Translated:
  assumes "k \<in> set (fetches s)"
  shows "translatedArray (translationSettled k (Translated v) s) = translatedArray s @ [v]"
  using assms
  by (simp add: translationSettled_def translateEffect_def translateNextPhrase_def
      speakEffect_def speakNextPhrase_def)

section \<open>Claims about the pipeline\<close>

text \<open>
  Claim C4 (the safety timeout races against the provider's signal, whichever fires first
  cancels the other, so exactly one element leaves the translated queue per playback, also
  when the timeout fires first and the signal arrives afterwards). \<open>onend\<close> and \<open>onerror\<close>
  clear the timeout, but the timeout's callback leaves the utterance and its handlers as
  they are. The default view with \<open>A\<close>, \<open>B\<close>, \<open>C\<close> queued and \<open>A\<close> being spoken (utterance
  2): the timeout of utterance 2 removes \<open>A\<close> and \<open>B\<close> is given to the provider
  (utterance 4); the late \<open>onend\<close> of utterance 2 then removes \<open>B\<close> while its playback is
  outstanding, releases the lock, and \<open>C\<close> is given to the provider while utterance 4 is
  outstanding. The one playback of \<open>A\<close> has removed two elements.
\<close>

theorem C4_late_completion_removes_a_second_element:
  "(let s0 = default_run [StartStop,
               Result [(''a b c d e f g h i j k l m n o p q r s t u v w x y z a b c d'', True)],
               Pipe (Settled 0 (Translated (JStr ''A''))),
               Pipe (Settled 1 (Translated (JStr ''B''))),
               Pipe (Settled 3 (Translated (JStr ''C'')))];
        s1 = default_step s0 (Pipe (SafetyTimeout 2));
        s2 = default_step s1 (Pipe (UtteranceEnd 2))
    in translatedArray s0 = [JStr ''A'', JStr ''B'', JStr ''C''] \<and> spoken s0 = [JStr ''A''] \<and>
       utterances s0 = [2] \<and> timers s0 = [2] \<and> isSpeaking s0 \<and>
       translatedArray s1 = [JStr ''B'', JStr ''C''] \<and> spoken s1 = [JStr ''A'', JStr ''B''] \<and>
       utterances s1 = [2, 4] \<and> timers s1 = [4] \<and> isSpeaking s1 \<and>
       translatedArray s2 = [JStr ''C''] \<and> spoken s2 = [JStr ''A'', JStr ''B'', JStr ''C''] \<and>
       utterances s2 = [4, 5] \<and> timers s2 = [4, 5] \<and> isSpeaking s2)"
  by code_simp

text \<open>
  Claim C5, as stated (at most one translation call and one playback call outstanding at
  every instant of an active session; a lock is cleared only in a completion path of its
  call, by no other operation, \<open>stop()\<close> included), fails: in the iPhone view the stop
  branch of \<open>handleStartStop\<close> resets both locks while the fetch is outstanding, and after
  stop, start and the next phrase the connected session has two translation calls
  outstanding.
\<close>

theorem C5_counterexample:
  "(let s = iphone_run [PASSWORD_STORAGE_KEY \<mapsto> ''pw'']
              [TokenEffect (TokenBody ''tok0''), ClickStartStop (TokenBody ''tok1'') True,
               PartialTranscript ''a b c d e f g h i j k l''];
        s' = iphone_step s (ClickStartStop (TokenBody ''tok2'') True)
    in isConnected s \<and> isTranslating s \<and> fetches s = [0] \<and>
       isConnected s' = False \<and> isTranslating s' = False \<and> fetches s' = [0]) \<and>
   (let s = iphone_run [PASSWORD_STORAGE_KEY \<mapsto> ''pw'']
              [TokenEffect (TokenBody ''tok0''), ClickStartStop (TokenBody ''tok1'') True,
               PartialTranscript ''a b c d e f g h i j k l'',
               ClickStartStop (TokenBody ''tok2'') True,
               ClickStartStop (TokenBody ''tok2'') True,
               PartialTranscript ''m n o p q r s t u v'']
    in isConnected s \<and> fetches s = [0, 1] \<and>
       fetched s = [''a b c d e f g h i j'', ''m n o p q r s t u v''])"
  by code_simp

text \<open>
  Claim C5, amended: each stage issues its external call only when its lock is clear and
  sets the lock with it, and in every timely run of pipeline events from a state in single
  flight, at most one translation and at most one playback are outstanding and each lock is
  held exactly while its call is. \<open>handleStartStop\<close> resets both locks without regard to
  outstanding calls, which stay outstanding: the iPhone view on stop and on start, the
  default view on start.
\<close>

theorem C5_single_flight_between_resets:
  "(single_flight s \<and> timely s evs \<longrightarrow> single_flight (foldl pipe_step s evs)) \<and>
   (fetches (translateEffect s) \<noteq> fetches s \<longrightarrow>
      \<not> isTranslating s \<and> isTranslating (translateEffect s)) \<and>
   (timers (speakEffect s) \<noteq> timers s \<longrightarrow> \<not> isSpeaking s \<and> isSpeaking (speakEffect s)) \<and>
   (isConnected i \<or> password i \<noteq> [] \<longrightarrow>
      (let i' = handleStartStop_iphone resp ok i in
         \<not> isTranslating i' \<and> \<not> isSpeaking i' \<and>
         fetches i' = fetches i \<and> timers i' = timers i \<and> utterances i' = utterances i)) \<and>
   (\<not> isListening d \<longrightarrow>
      (let d' = handleStartStop d in
         \<not> isTranslating d' \<and> \<not> isSpeaking d' \<and>
         fetches d' = fetches d \<and> timers d' = timers d \<and> utterances d' = utterances d))"
proof (intro conjI impI)
  assume "single_flight s \<and> timely s evs"
  then show "single_flight (foldl pipe_step s evs)" by (simp add: single_flight_run)
next
  assume "fetches (translateEffect s) \<noteq> fetches s"
  then show "\<not> isTranslating s" "isTranslating (translateEffect s)"
    by (auto simp: translateEffect_def translateNextPhrase_def split: if_splits)
next
  assume "timers (speakEffect s) \<noteq> timers s"
  then show "\<not> isSpeaking s" "isSpeaking (speakEffect s)"
    by (auto simp: speakEffect_def speakNextPhrase_def split: if_splits)
next
  assume "isConnected i \<or> password i \<noteq> []"
  then show "let i' = handleStartStop_iphone resp ok i in
         \<not> isTranslating i' \<and> \<not> isSpeaking i' \<and>
         fetches i' = fetches i \<and> timers i' = timers i \<and> utterances i' = utterances i"
    by (cases resp)
       (auto simp: handleStartStop_iphone_def getToken_def Let_def split: prod.splits sum.splits)
next
  assume "\<not> isListening d"
  then show "let d' = handleStartStop d in
         \<not> isTranslating d' \<and> \<not> isSpeaking d' \<and>
         fetches d' = fetches d \<and> timers d' = timers d \<and> utterances d' = utterances d"
    by (simp add: handleStartStop_def)
qed

theorem C5_single_flight_between_resets_witness:
  "(let s = (default_run [StartStop])\<lparr>phraseArray := [''x''], translatedArray := [JStr ''A'']\<rparr>;
        evs = [Phrase ''y'', Settled 0 (Translated (JStr ''B'')), SafetyTimeout 1, UtteranceEnd 2];
        i = iphone_run [PASSWORD_STORAGE_KEY \<mapsto> ''pw'']
              [TokenEffect (TokenBody ''tok0''), ClickStartStop (TokenBody ''tok'') True];
        d = default_init
    in single_flight s \<and> timely s evs \<and> single_flight (foldl pipe_step s evs) \<and>
       fetches (translateEffect s) \<noteq> fetches s \<and> isTranslating (translateEffect s) \<and>
       timers (speakEffect s) \<noteq> timers s \<and> isSpeaking (speakEffect s) \<and>
       isConnected i \<and>
       \<not> isTranslating (handleStartStop_iphone (TokenBody ''tok'') True i) \<and>
       \<not> isListening d \<and> \<not> isTranslating (handleStartStop d))"
proof -
  let ?s = "(default_run [StartStop])\<lparr>phraseArray := [''x''], translatedArray := [JStr ''A'']\<rparr>"
  let ?evs = "[Phrase ''y'', Settled 0 (Translated (JStr ''B'')), SafetyTimeout 1, UtteranceEnd 2]"
  let ?i = "iphone_run [PASSWORD_STORAGE_KEY \<mapsto> ''pw'']
              [TokenEffect (TokenBody ''tok0''), ClickStartStop (TokenBody ''tok'') True]"
  have h1: "single_flight ?s \<and> timely ?s ?evs" by code_simp
  have h2: "fetches (translateEffect ?s) \<noteq> fetches ?s" by code_simp
  have h3: "timers (speakEffect ?s) \<noteq> timers ?s" by code_simp
  have h4: "isConnected ?i \<or> password ?i \<noteq> []" "isConnected ?i" by code_simp+
  have h5: "\<not> isListening default_init" by code_simp
  from C5_single_flight_between_resets [of ?s ?evs ?i "TokenBody ''tok''" True default_init]
    h1 h2 h3 h4 h5
  show ?thesis unfolding Let_def by blast
qed

text \<open>
  Claim C6, as stated (on a translation failure, a malformed payload included, the head
  phrase is removed, no translated phrase is produced, the translated queue and the recent
  translations are unchanged), fails for a malformed payload that can be read without a
  throw. With the body \<open>[[[]]]\<close> in an \<open>ok\<close> response the default view reads \<open>undefined\<close>
  and the iPhone view reads the empty string; either is appended to the translated array
  and to the recent translations and given to the playback provider. The body \<open>["oops"]\<close>
  is read as \<open>o\<close> by the default view.
\<close>

theorem C6_counterexample:
  "(let body = JArr [JArr [JArr []]];
        s = default_run [StartStop, Result [(''a b c d e f g h i j'', True)]];
        s' = default_step s (Fetched 0 (Response True (Some body)))
    in phraseArray s = [''a b c d e f g h i j''] \<and> fetches s = [0] \<and>
       translatedArray s = [] \<and> spoken s = [] \<and>
       readTranslation body = Inr JUndefined \<and>
       phraseArray s' = [] \<and> translatedArray s' = [JUndefined] \<and>
       recentTranslations s' = [JUndefined] \<and> spoken s' = [JUndefined]) \<and>
   (let body = JArr [JArr [JArr []]];
        s = iphone_run [PASSWORD_STORAGE_KEY \<mapsto> ''pw'']
              [TokenEffect (TokenBody ''tok0''), ClickStartStop (TokenBody ''tok'') True,
               PartialTranscript ''a b c d e f g h i j''];
        s' = iphone_step s (IFetched 0 (Response True (Some body)))
    in phraseArray s = [''a b c d e f g h i j''] \<and> fetches s = [0] \<and>
       translatedArray s = [] \<and> spoken s = [] \<and>
       readTranslation_iphone body = Inr [] \<and>
       phraseArray s' = [] \<and> translatedArray s' = [[]] \<and>
       recentTranslations s' = [[]] \<and> spoken s' = [[]]) \<and>
   readTranslation (JArr [JStr ''oops'']) = Inr (JStr ''o'')"
  by code_simp

text \<open>
  Claim C6, amended: on a translation failure that makes the \<open>try\<close> block throw, the head
  phrase is removed without retry, no translated phrase is produced (the translated array,
  the recent translations and the playback log are unchanged), the lock is released and the
  next queued phrase, if any, is fetched at once. The block throws when the \<open>fetch\<close>
  rejects, when the response is not \<open>ok\<close>, when \<open>response.json()\<close> rejects and when
  reading the translation out of the payload throws. A payload that is read without a throw
  is not a failure: the block yields what was read, and that is appended to the translated
  array.
\<close>

theorem C6_thrown_translation_drops_the_head:
  "(k \<in> set (fetches s) \<and> tryBlock read r = Threw e \<longrightarrow>
      (let s' = fetchSettled read k r s in
         phraseArray s' = drop 1 (phraseArray s) \<and>
         translatedArray s' = translatedArray s \<and>
         recentTranslations s' = recentTranslations s \<and>
         spoken s' = spoken s \<and>
         (if drop 1 (phraseArray s) = [] then
            \<not> isTranslating s' \<and> fetched s' = fetched s \<and> fetches s' = remove1 k (fetches s)
          else
            isTranslating s' \<and> fetched s' = fetched s @ [hd (drop 1 (phraseArray s))] \<and>
            fetches s' = remove1 k (fetches s) @ [nextId s]))) \<and>
   tryBlock read FetchRejected = Threw ProviderError \<and>
   tryBlock read (Response False body) = Threw NonSuccessResponse \<and>
   tryBlock read (Response True None) = Threw MalformedPayload \<and>
   (read data = Inl TypeError \<longrightarrow>
      tryBlock read (Response True (Some data)) = Threw MalformedPayload) \<and>
   (read data' = Inr v \<longrightarrow>
      tryBlock read (Response True (Some data')) = Translated v \<and>
      (k \<in> set (fetches s) \<longrightarrow>
         translatedArray (fetchSettled read k (Response True (Some data')) s) =
           translatedArray s @ [v]))"
proof (intro conjI impI)
  assume "k \<in> set (fetches s) \<and> tryBlock read r = Threw e"
  then show "let s' = fetchSettled read k r s in
         phraseArray s' = drop 1 (phraseArray s) \<and>
         translatedArray s' = translatedArray s \<and>
         recentTranslations s' = recentTranslations s \<and>
         spoken s' = spoken s \<and>
         (if drop 1 (phraseArray s) = [] then
            \<not> isTranslating s' \<and> fetched s' = fetched s \<and> fetches s' = remove1 k (fetches s)
          else
            isTranslating s' \<and> fetched s' = fetched s @ [hd (drop 1 (phraseArray s))] \<and>
            fetches s' = remove1 k (fetches s) @ [nextId s])"
    using translationSettled_Threw [of k s e] by (simp add: fetchSettled_def)
next
  show "tryBlock read FetchRejected = Threw ProviderError"
    "tryBlock read (Response False body) = Threw NonSuccessResponse"
    "tryBlock read (Response True None) = Threw MalformedPayload"
    by (simp_all add: tryBlock_def)
next
  assume "read data = Inl TypeError"
  then show "tryBlock read (Response True (Some data)) = Threw MalformedPayload"
    by (simp add: tryBlock_def)
next
  assume v: "read data' = Inr v"
  then show t: "tryBlock read (Response True (Some data')) = Translated v"
    by (simp add: tryBlock_def)
  assume "k \<in> set (fetches s)"
  then show "translatedArray (fetchSettled read k (Response True (Some data')) s) =
           translatedArray s @ [v]"
    using v by (simp add: fetchSettled_def tryBlock_def translatedArray_Translated)
qed

theorem C6_thrown_translation_drops_the_head_witness:
  "(let s = default_run [StartStop, Result [(''a b c d e f g h i j k l m n o p q r s t'', True)]];
        r = Response True (Some (JObj []));
        ok = Response True (Some (JArr [JArr [JArr [JStr ''labdien'']]]));
        s' = fetchSettled readTranslation 0 r s
    in 0 \<in> set (fetches s) \<and> tryBlock readTranslation r = Threw MalformedPayload \<and>
       readTranslation (JObj []) = Inl TypeError \<and>
       readTranslation (JArr [JArr [JArr [JStr ''labdien'']]]) = Inr (JStr ''labdien'') \<and>
       drop 1 (phraseArray s) \<noteq> [] \<and>
       phraseArray s' = drop 1 (phraseArray s) \<and>
       translatedArray s' = translatedArray s \<and>
       recentTranslations s' = recentTranslations s \<and>
       isTranslating s' \<and> fetched s' = fetched s @ [hd (drop 1 (phraseArray s))] \<and>
       translatedArray (fetchSettled readTranslation 0 ok s) = translatedArray s @ [JStr ''labdien''])"
proof -
  let ?s = "default_run [StartStop, Result [(''a b c d e f g h i j k l m n o p q r s t'', True)]]"
  let ?r = "Response True (Some (JObj []))"
  have h1: "0 \<in> set (fetches ?s)" by code_simp
  have h2: "tryBlock readTranslation ?r = Threw MalformedPayload" by code_simp
  have h3: "readTranslation (JObj []) = Inl TypeError" by code_simp
  have h4: "readTranslation (JArr [JArr [JArr [JStr ''labdien'']]]) = Inr (JStr ''labdien'')"
    by code_simp
  have h5: "drop 1 (phraseArray ?s) \<noteq> []" by code_simp
  from C6_thrown_translation_drops_the_head
         [of 0 ?s readTranslation ?r MalformedPayload None "JObj []"
            "JArr [JArr [JArr [JStr ''labdien'']]]" "JStr ''labdien''"]
       h1 h2 h3 h4 h5
  show ?thesis unfolding Let_def by presburger
qed

section \<open>Stopping\<close>

lemmas pipe_defs = handlePhrase_def translationSettled_def utteranceEnd_def utteranceError_def
  safetyTimeout_def translateEffect_def translateNextPhrase_def speakEffect_def speakNextPhrase_def

lemma pipe_step_isListening:
  "pipe_step (d\<lparr>isListening := b\<rparr>) e = (pipe_step d e)\<lparr>isListening := b\<rparr>"
  by (cases e) (auto simp: pipe_defs split: attempt.splits)

lemma pipe_run_isListening:
  "foldl pipe_step (d\<lparr>isListening := b\<rparr>) evs = (foldl pipe_step d evs)\<lparr>isListening := b\<rparr>"
  by (induction evs arbitrary: d) (simp_all add: pipe_step_isListening)




text \<open>
  Claim C8, as stated (stop clears neither queue, what is queued is drained exactly as if
  the session were still active, and only capture is terminated), fails in the iPhone
  view, whose stop also resets the two locks: with \<open>T1\<close> being spoken and the translation
  of \<open>k l\<close> outstanding, the translation's arrival starts nothing in the active session,
  but after a stop it gives \<open>T1\<close> to the playback provider a second time.
\<close>

theorem C8_counterexample:
  "(let s = iphone_run [PASSWORD_STORAGE_KEY \<mapsto> ''pw'']
              [TokenEffect (TokenBody ''tok0''), ClickStartStop (TokenBody ''tok'') True,
               PartialTranscript ''a b c d e f g h i j k l'',
               IPipe (Settled 0 (Translated ''T1'')),
               CommittedTranscript ''a b c d e f g h i j k l''];
        active = iphone_step s (IPipe (Settled 2 (Translated ''T2'')));
        stopped = iphone_step (iphone_step s (ClickStartStop (TokenBody ''tok'') True))
                    (IPipe (Settled 2 (Translated ''T2'')))
    in translatedArray s = [''T1''] \<and> spoken s = [''T1''] \<and> utterances s = [1] \<and>
       phraseArray s = [''k l''] \<and> fetches s = [2] \<and>
       translatedArray active = [''T1'', ''T2''] \<and> spoken active = [''T1''] \<and>
       utterances active = [1] \<and>
       translatedArray stopped = [''T1'', ''T2''] \<and> spoken stopped = [''T1'', ''T1''] \<and>
       utterances stopped = [1, 3])"
  by code_simp

text \<open>
  Claim C8, amended: stop clears neither the phrase array nor the translated array, and
  cancels no outstanding translation or playback. In the default view stop changes the
  listening flag only, so every run of pipeline events after the stop is the run of the
  active session, up to that flag. In the iPhone view stop also disconnects and resets the
  two locks, so what is queued stays queued but its draining can differ from that of an
  active session.
\<close>

theorem C8_stop_keeps_the_queues:
  "(isListening d \<longrightarrow>
      phraseArray (handleStartStop d) = phraseArray d \<and>
      translatedArray (handleStartStop d) = translatedArray d \<and>
      foldl pipe_step (handleStartStop d) evs = (foldl pipe_step d evs)\<lparr>isListening := False\<rparr>) \<and>
   (isConnected i \<longrightarrow>
      (let i' = handleStartStop_iphone resp ok i in
         phraseArray i' = phraseArray i \<and> translatedArray i' = translatedArray i \<and>
         fetches i' = fetches i \<and> utterances i' = utterances i \<and> timers i' = timers i \<and>
         \<not> isConnected i' \<and> \<not> isTranslating i' \<and> \<not> isSpeaking i'))"
  by (simp add: handleStartStop_def handleStartStop_iphone_def pipe_run_isListening)

theorem C8_stop_keeps_the_queues_witness:
  "(let d = default_run [StartStop, Result [(''a b c d e f g h i j k l m n o p q r s t'', True)]];
        evs = [Settled 0 (Translated (JStr ''T1'')), Settled 1 (Translated (JStr ''T2'')), UtteranceEnd 2];
        i = iphone_run [PASSWORD_STORAGE_KEY \<mapsto> ''pw'']
              [TokenEffect (TokenBody ''tok0''), ClickStartStop (TokenBody ''tok'') True, PartialTranscript ''a b c d e f g h i j k l'']
    in isListening d \<and> phraseArray (handleStartStop d) = phraseArray d \<and>
       foldl pipe_step (handleStartStop d) evs = (foldl pipe_step d evs)\<lparr>isListening := False\<rparr> \<and>
       isConnected i \<and>
       phraseArray (handleStartStop_iphone (TokenBody ''tok'') True i) = phraseArray i)"
proof -
  let ?d = "default_run [StartStop, Result [(''a b c d e f g h i j k l m n o p q r s t'', True)]]"
  let ?evs = "[Settled 0 (Translated (JStr ''T1'')), Settled 1 (Translated (JStr ''T2'')), UtteranceEnd 2]"
  let ?i = "iphone_run [PASSWORD_STORAGE_KEY \<mapsto> ''pw'']
              [TokenEffect (TokenBody ''tok0''), ClickStartStop (TokenBody ''tok'') True, PartialTranscript ''a b c d e f g h i j k l'']"
  have h1: "isListening ?d" by code_simp
  have h2: "isConnected ?i" by code_simp
  from C8_stop_keeps_the_queues [of ?d ?evs ?i "TokenBody ''tok''" True] h1 h2
  show ?thesis unfolding Let_def by blast
qed

section \<open>The password and the token\<close>

lemma localStorage_getToken: "localStorage (snd (getToken pw resp s)) = localStorage s"
  by (cases resp) (simp_all add: getToken_def Let_def)

lemma localStorage_pipe_step: "localStorage (pipe_step s e) = localStorage s"
  by (cases e) (auto simp: pipe_defs split: attempt.splits)

lemma localStorage_fetchSettled: "localStorage (fetchSettled read k r s) = localStorage s"
  by (auto simp: fetchSettled_def pipe_defs split: attempt.splits)

lemma localStorage_handlePhrases:
  "localStorage (foldl (\<lambda>st p. handlePhrase p st) s ps) = localStorage s"
  by (induction ps arbitrary: s) (simp_all add: handlePhrase_def translateEffect_def translateNextPhrase_def)

lemma localStorage_scribe_event: "localStorage (scribe_event h s) = localStorage s"
  by (simp add: scribe_event_def localStorage_handlePhrases split: prod.splits)

lemma localStorage_handleStartStop_iphone:
  "localStorage (handleStartStop_iphone resp ok s) = localStorage s"
  by (cases resp) (simp_all add: handleStartStop_iphone_def getToken_def Let_def disconnect_def)

lemma localStorage_tokenEffect: "localStorage (tokenEffect resp s) = localStorage s"
  by (simp add: tokenEffect_def localStorage_getToken)

lemma localStorage_handlePasswordSubmit:
  "localStorage (handlePasswordSubmit resp s) =
     (if trim (passwordInput s) \<noteq> [] \<and> token_ok resp
      then (localStorage s)(PASSWORD_STORAGE_KEY \<mapsto> passwordInput s) else localStorage s)"
proof (cases "trim (passwordInput s) = []")
  case True
  then show ?thesis by (simp add: handlePasswordSubmit_def)
next
  case False
  then have "passwordInput s \<noteq> []" using trim_Nil by auto
  with False show ?thesis
    by (cases resp) (simp_all add: handlePasswordSubmit_def getToken_def Let_def)
qed

lemma localStorage_iphone_step:
  "localStorage (iphone_step s e) =
     (case e of
        SubmitPassword r \<Rightarrow>
          if trim (passwordInput s) \<noteq> [] \<and> token_ok r
          then (localStorage s)(PASSWORD_STORAGE_KEY \<mapsto> passwordInput s) else localStorage s
      | Logout \<Rightarrow> (localStorage s)(PASSWORD_STORAGE_KEY := None)
      | _ \<Rightarrow> localStorage s)"
  by (cases e)
     (simp_all add: localStorage_handlePasswordSubmit localStorage_tokenEffect
        localStorage_handleStartStop_iphone localStorage_scribe_event localStorage_pipe_step
        localStorage_fetchSettled handleLogout_def clearToken_def)

text \<open>
  Claim C9 (in the iPhone view every start requests a fresh token before connecting; a
  token is not reused across starts and not persisted). A start, that is a click while
  disconnected with a password, sends one request to the token endpoint, gives
  \<open>scribe.connect\<close> the token of that very response and leaves \<open>localStorage\<close> as it is;
  a start, a stop and a second start make two requests and connect with the two tokens
  returned. \<open>getToken\<close> does not write to \<open>localStorage\<close>, and no event writes anything but
  the typed password, under the password's key.
\<close>

theorem C9_every_start_fetches_a_fresh_token:
  "(password s \<noteq> [] \<and> \<not> isConnected s \<longrightarrow>
      (let s' = handleStartStop_iphone resp ok s in
         tokenFetches s' = tokenFetches s @ [password s] \<and>
         connects s' = connects s @
           (case resp of TokenBody t \<Rightarrow> if t = [] then [] else [t] | _ \<Rightarrow> []) \<and>
         isConnected s' = (token_ok resp \<and> ok) \<and>
         localStorage s' = localStorage s)) \<and>
   (password s \<noteq> [] \<and> \<not> isConnected s \<and> t1 \<noteq> [] \<and> t2 \<noteq> [] \<longrightarrow>
      (let s1 = handleStartStop_iphone (TokenBody t1) True s;
           s2 = handleStartStop_iphone resp ok s1;
           s3 = handleStartStop_iphone (TokenBody t2) True s2
       in isConnected s1 \<and> \<not> isConnected s2 \<and> isConnected s3 \<and>
          tokenFetches s3 = tokenFetches s @ [password s, password s] \<and>
          connects s3 = connects s @ [t1, t2] \<and>
          localStorage s3 = localStorage s)) \<and>
   localStorage (snd (getToken pw resp s)) = localStorage s \<and>
   (key \<noteq> PASSWORD_STORAGE_KEY \<longrightarrow> localStorage (iphone_step s e) key = localStorage s key) \<and>
   (localStorage (iphone_step s e) PASSWORD_STORAGE_KEY = localStorage s PASSWORD_STORAGE_KEY \<or>
    localStorage (iphone_step s e) PASSWORD_STORAGE_KEY = Some (passwordInput s) \<or>
    localStorage (iphone_step s e) PASSWORD_STORAGE_KEY = None)"
proof (intro conjI impI)
  assume "password s \<noteq> [] \<and> \<not> isConnected s"
  then show "let s' = handleStartStop_iphone resp ok s in
         tokenFetches s' = tokenFetches s @ [password s] \<and>
         connects s' = connects s @
           (case resp of TokenBody t \<Rightarrow> if t = [] then [] else [t] | _ \<Rightarrow> []) \<and>
         isConnected s' = (token_ok resp \<and> ok) \<and>
         localStorage s' = localStorage s"
    by (cases resp) (simp_all add: handleStartStop_iphone_def getToken_def Let_def)
next
  assume "password s \<noteq> [] \<and> \<not> isConnected s \<and> t1 \<noteq> [] \<and> t2 \<noteq> []"
  then show "let s1 = handleStartStop_iphone (TokenBody t1) True s;
           s2 = handleStartStop_iphone resp ok s1;
           s3 = handleStartStop_iphone (TokenBody t2) True s2
       in isConnected s1 \<and> \<not> isConnected s2 \<and> isConnected s3 \<and>
          tokenFetches s3 = tokenFetches s @ [password s, password s] \<and>
          connects s3 = connects s @ [t1, t2] \<and>
          localStorage s3 = localStorage s"
    by (simp add: handleStartStop_iphone_def getToken_def Let_def disconnect_def)
next
  show "localStorage (snd (getToken pw resp s)) = localStorage s"
    by (rule localStorage_getToken)
next
  assume "key \<noteq> PASSWORD_STORAGE_KEY"
  then show "localStorage (iphone_step s e) key = localStorage s key"
    unfolding localStorage_iphone_step by (cases e) auto
next
  show "localStorage (iphone_step s e) PASSWORD_STORAGE_KEY = localStorage s PASSWORD_STORAGE_KEY \<or>
    localStorage (iphone_step s e) PASSWORD_STORAGE_KEY = Some (passwordInput s) \<or>
    localStorage (iphone_step s e) PASSWORD_STORAGE_KEY = None"
    unfolding localStorage_iphone_step by (cases e) auto
qed

theorem C9_every_start_fetches_a_fresh_token_witness:
  "(let s = tokenEffect (TokenBody ''tok0'') (iphone_mount [PASSWORD_STORAGE_KEY \<mapsto> ''pw'']);
        s3 = handleStartStop_iphone (TokenBody ''tok2'') True
               (handleStartStop_iphone (TokenBody ''x'') False
                 (handleStartStop_iphone (TokenBody ''tok1'') True s))
    in password s \<noteq> [] \<and> \<not> isConnected s \<and>
       tokenFetches (handleStartStop_iphone (TokenBody ''tok1'') True s) =
         tokenFetches s @ [password s] \<and>
       tokenFetches s3 = tokenFetches s @ [password s, password s] \<and>
       connects s3 = connects s @ [''tok1'', ''tok2''] \<and>
       ''other'' \<noteq> PASSWORD_STORAGE_KEY \<and>
       localStorage (iphone_step s (ClickStartStop (TokenBody ''tok1'') True)) ''other'' =
         localStorage s ''other'')"
proof -
  let ?s = "tokenEffect (TokenBody ''tok0'') (iphone_mount [PASSWORD_STORAGE_KEY \<mapsto> ''pw''])"
  have h: "password ?s \<noteq> [] \<and> \<not> isConnected ?s" by code_simp
  have t: "''tok1'' \<noteq> []" "''tok2'' \<noteq> []" by simp_all
  have k: "''other'' \<noteq> PASSWORD_STORAGE_KEY" by code_simp
  from C9_every_start_fetches_a_fresh_token
         [of ?s "TokenBody ''tok1''" True "''tok1''" "''tok2''" "''pw''" "''other''"
            "ClickStartStop (TokenBody ''tok1'') True"]
       C9_every_start_fetches_a_fresh_token
         [of ?s "TokenBody ''x''" False "''tok1''" "''tok2''" "''pw''" "''other''"
            "ClickStartStop (TokenBody ''tok1'') True"] h t k
  show ?thesis unfolding Let_def by blast
qed

text \<open>
  Claim C10 (the password is persisted; the token is kept in memory only). A submitted
  password that is not blank and for which the endpoint returns a token is written to
  \<open>localStorage\<close> under \<open>PASSWORD_STORAGE_KEY\<close> and is the password of the next mount; a
  mount reads the password from there. Among all events only the submission writes to
  \<open>localStorage\<close> and only the logout removes the key. \<open>getToken\<close> returns the token,
  keeps it in the \<open>token\<close> state and leaves \<open>localStorage\<close> as it is.
\<close>

theorem C10_password_is_persisted_token_is_not:
  "(trim (passwordInput s) \<noteq> [] \<and> token_ok resp \<longrightarrow>
      (let s' = handlePasswordSubmit resp s in
         localStorage s' PASSWORD_STORAGE_KEY = Some (passwordInput s) \<and>
         password s' = passwordInput s \<and>
         password (iphone_mount (localStorage s')) = passwordInput s)) \<and>
   password (iphone_mount ls) = (case ls PASSWORD_STORAGE_KEY of None \<Rightarrow> [] | Some p \<Rightarrow> p) \<and>
   localStorage (iphone_step s e) =
     (case e of
        SubmitPassword r \<Rightarrow>
          if trim (passwordInput s) \<noteq> [] \<and> token_ok r
          then (localStorage s)(PASSWORD_STORAGE_KEY \<mapsto> passwordInput s) else localStorage s
      | Logout \<Rightarrow> (localStorage s)(PASSWORD_STORAGE_KEY := None)
      | _ \<Rightarrow> localStorage s) \<and>
   (e \<noteq> Logout \<and> localStorage s PASSWORD_STORAGE_KEY \<noteq> None \<longrightarrow>
      localStorage (iphone_step s e) PASSWORD_STORAGE_KEY \<noteq> None) \<and>
   (pw \<noteq> [] \<and> t \<noteq> [] \<longrightarrow>
      fst (getToken pw (TokenBody t) s) = Inr t \<and>
      token (snd (getToken pw (TokenBody t) s)) = Some t \<and>
      localStorage (snd (getToken pw (TokenBody t) s)) = localStorage s)"
proof (intro conjI impI)
  assume a: "trim (passwordInput s) \<noteq> [] \<and> token_ok resp"
  then have "passwordInput s \<noteq> []" using trim_Nil by auto
  with a show "let s' = handlePasswordSubmit resp s in
         localStorage s' PASSWORD_STORAGE_KEY = Some (passwordInput s) \<and>
         password s' = passwordInput s \<and>
         password (iphone_mount (localStorage s')) = passwordInput s"
    by (cases resp) (simp_all add: handlePasswordSubmit_def getToken_def Let_def iphone_mount_def)
next
  show "password (iphone_mount ls) = (case ls PASSWORD_STORAGE_KEY of None \<Rightarrow> [] | Some p \<Rightarrow> p)"
    by (simp add: iphone_mount_def)
next
  show "localStorage (iphone_step s e) =
     (case e of
        SubmitPassword r \<Rightarrow>
          if trim (passwordInput s) \<noteq> [] \<and> token_ok r
          then (localStorage s)(PASSWORD_STORAGE_KEY \<mapsto> passwordInput s) else localStorage s
      | Logout \<Rightarrow> (localStorage s)(PASSWORD_STORAGE_KEY := None)
      | _ \<Rightarrow> localStorage s)"
    by (rule localStorage_iphone_step)
next
  assume "e \<noteq> Logout \<and> localStorage s PASSWORD_STORAGE_KEY \<noteq> None"
  then show "localStorage (iphone_step s e) PASSWORD_STORAGE_KEY \<noteq> None"
    unfolding localStorage_iphone_step by (cases e) auto
next
  assume "pw \<noteq> [] \<and> t \<noteq> []"
  then show "fst (getToken pw (TokenBody t) s) = Inr t"
    "token (snd (getToken pw (TokenBody t) s)) = Some t"
    "localStorage (snd (getToken pw (TokenBody t) s)) = localStorage s"
    by (simp_all add: getToken_def Let_def)
qed

theorem C10_password_is_persisted_token_is_not_witness:
  "(let s = iphone_step (iphone_mount Map.empty) (TypePassword ''pw'');
        s' = handlePasswordSubmit (TokenBody ''tok'') s
    in trim (passwordInput s) \<noteq> [] \<and> token_ok (TokenBody ''tok'') \<and>
       localStorage s' PASSWORD_STORAGE_KEY = Some ''pw'' \<and>
       password (iphone_mount (localStorage s')) = ''pw'' \<and>
       localStorage (iphone_step s' (ClickStartStop (TokenBody ''tok2'') True)) PASSWORD_STORAGE_KEY \<noteq> None \<and>
       token (snd (getToken ''pw'' (TokenBody ''tok'') s)) = Some ''tok'' \<and>
       localStorage (snd (getToken ''pw'' (TokenBody ''tok'') s)) = localStorage s)"
proof -
  let ?s = "iphone_step (iphone_mount Map.empty) (TypePassword ''pw'')"
  let ?s' = "handlePasswordSubmit (TokenBody ''tok'') ?s"
  have h1: "trim (passwordInput ?s) \<noteq> [] \<and> token_ok (TokenBody ''tok'')" by code_simp
  have p: "passwordInput ?s = ''pw''" by code_simp
  have h3: "''pw'' \<noteq> [] \<and> ''tok'' \<noteq> []" by simp
  have h4: "ClickStartStop (TokenBody ''tok2'') True \<noteq> Logout" by simp
  note a = C10_password_is_persisted_token_is_not
             [of ?s "TokenBody ''tok''" Map.empty "Logout" "''pw''" "''tok''"]
  note b = C10_password_is_persisted_token_is_not
             [of ?s' "TokenBody ''tok''" Map.empty "ClickStartStop (TokenBody ''tok2'') True" "''pw''" "''tok''"]
  have k: "localStorage ?s' PASSWORD_STORAGE_KEY = Some ''pw''"
    "password (iphone_mount (localStorage ?s')) = ''pw''"
    using a h1 p unfolding Let_def by auto
  then have "localStorage ?s' PASSWORD_STORAGE_KEY \<noteq> None" by simp
  with b h4 have "localStorage (iphone_step ?s' (ClickStartStop (TokenBody ''tok2'') True)) PASSWORD_STORAGE_KEY \<noteq> None"
    by blast
  with a h1 h3 k show ?thesis unfolding Let_def by blast
qed

end
